theory Spec2Isabelle
  imports Complex_Main "HOL-Library.Extended_Nat"
begin

section \<open>Python strings\<close>

text \<open>
  A Python \<open>str\<close> is modelled as a \<open>string\<close>: a list of characters, each standing for
  one code point (so \<open>length\<close> is Python's \<open>len\<close>). \<open>whitespace\<close> lists the code points
  below 256 for which \<open>str.isspace\<close> holds; \<open>str.strip()\<close> removes them at both ends.
\<close>

definition whitespace :: string where
  "whitespace = [CHR 0x09, CHR 0x0A, CHR 0x0B, CHR 0x0C, CHR 0x0D, CHR 0x1C, CHR 0x1D,
                 CHR 0x1E, CHR 0x1F, CHR 0x20, CHR 0x85, CHR 0xA0]"

definition isspace :: "char \<Rightarrow> bool" where
  "isspace c = (c \<in> set whitespace)"

definition strip :: "string \<Rightarrow> string" where
  "strip s = rev (dropWhile isspace (rev (dropWhile isspace s)))"

text \<open>
  \<open>content.split('. ')\<close>: the occurrences of the two-character delimiter are found from the
  left and do not overlap; the result always has at least one element.
\<close>

fun split_sentences :: "string \<Rightarrow> string list" where
  "split_sentences [] = [[]]"
| "split_sentences [c] = [[c]]"
| "split_sentences (c # d # cs) =
     (if c = CHR ''.'' \<and> d = CHR '' '' then [] # split_sentences cs
      else (case split_sentences (d # cs) of
              [] \<Rightarrow> [[c]]
            | w # ws \<Rightarrow> (c # w) # ws))"

text \<open>\<open>sep.join(xs)\<close>.\<close>

fun join :: "string \<Rightarrow> string list \<Rightarrow> string" where
  "join sep [] = []"
| "join sep [x] = x"
| "join sep (x # y # ys) = x @ sep @ join sep (y # ys)"

text \<open>The decimal rendering of a non-negative integer inside an f-string.\<close>

fun str_nat :: "nat \<Rightarrow> string" where
  "str_nat n = (if n < 10 then [''0123456789'' ! n]
                else str_nat (n div 10) @ [''0123456789'' ! (n mod 10)])"

declare str_nat.simps [simp del]

text \<open>The rendering of a value that is a \<open>str\<close> or \<open>None\<close> inside an f-string.\<close>

fun format_str :: "string option \<Rightarrow> string" where
  "format_str None = ''None''"
| "format_str (Some s) = s"

datatype py_error = ZeroDivisionError | KeyError | ValueError

datatype log_record = LogError string | LogWarning string

section \<open>HeadingCollector\<close>

text \<open>
  A child of the parsed tree's root: its tag, its \<open>text\<close> attribute (which may be \<open>None\<close>) and
  the string \<open>etree.tostring(element, encoding='unicode')\<close> gives for it.
\<close>

record element =
  tag :: string
  elem_text :: "string option"
  tostring :: string

text \<open>The dictionary \<open>{'main_heading': .., 'content': .., 'level': ..}\<close> of one heading.\<close>

record segment =
  seg_main_heading :: "string option"
  seg_content :: string
  seg_level :: nat

record heading_collector =
  chunks :: "segment list"
  current_chunk :: "segment option"
  h1_count :: nat
  h2_count :: nat
  h3_count :: nat

definition HeadingCollector_init :: heading_collector where
  "HeadingCollector_init =
     \<lparr>chunks = [], current_chunk = None, h1_count = 0, h2_count = 0, h3_count = 0\<rparr>"

text \<open>
  \<open>current_chunk['content'] += tostring(element)\<close> under \<open>if current_chunk is not None\<close>.
\<close>

definition append_content :: "element \<Rightarrow> segment option \<Rightarrow> segment option" where
  "append_content e cur =
     (case cur of
        None \<Rightarrow> None
      | Some c \<Rightarrow> Some (c\<lparr>seg_content := seg_content c @ tostring e\<rparr>))"

text \<open>
  The body of the loop of \<open>run\<close>; the children of \<open>root\<close> are the list \<open>elems\<close> below.
  The test \<open>if self.current_chunk:\<close> is the truth value of a dictionary of three keys,
  so it holds exactly when the attribute is not \<open>None\<close>.
\<close>

definition visit :: "heading_collector \<Rightarrow> element \<Rightarrow> heading_collector" where
  "visit hc e =
     (if tag e = ''h1'' \<or> tag e = ''h2'' then
        let hc1 = (case current_chunk hc of
                     Some c \<Rightarrow> hc\<lparr>chunks := chunks hc @ [c]\<rparr>
                   | None \<Rightarrow> hc);
            hc2 = hc1\<lparr>current_chunk :=
                        Some \<lparr>seg_main_heading = elem_text e, seg_content = '''',
                              seg_level = (if tag e = ''h1'' then 1 else 2)\<rparr>\<rparr>
        in if tag e = ''h1'' then hc2\<lparr>h1_count := h1_count hc2 + 1\<rparr>
           else hc2\<lparr>h2_count := h2_count hc2 + 1\<rparr>
      else if tag e = ''h3'' then
        hc\<lparr>h3_count := h3_count hc + 1,
           current_chunk := append_content e (current_chunk hc)\<rparr>
      else hc\<lparr>current_chunk := append_content e (current_chunk hc)\<rparr>)"

definition walk :: "heading_collector \<Rightarrow> element list \<Rightarrow> heading_collector" where
  "walk hc elems = foldl visit hc elems"

definition run :: "heading_collector \<Rightarrow> element list \<Rightarrow> heading_collector" where
  "run hc elems =
     (let hc' = walk hc elems
      in case current_chunk hc' of
           Some c \<Rightarrow> hc'\<lparr>chunks := chunks hc' @ [c]\<rparr>
         | None \<Rightarrow> hc')"

section \<open>ChunkProcessor\<close>

record chunk =
  chunk_id :: string
  source_url :: string
  main_heading :: "string option"
  content :: string
  summary :: string

text \<open>
  \<open>count_tokens\<close> is \<open>TokenCounter.count_tokens\<close>, the length of the tokenizer's encoding of a
  text; the tokenizer itself is outside the repository and stays a parameter.
\<close>

record chunk_processor =
  count_tokens :: "string \<Rightarrow> nat"
  min_tokens :: int
  max_tokens :: int

text \<open>
  The loop of \<open>split_large_chunk\<close> over the sentences; the state is the pair of \<open>splits\<close> and
  \<open>current_content\<close>.
\<close>

fun split_loop :: "chunk_processor \<Rightarrow> string list \<Rightarrow> string list \<times> string \<Rightarrow> string list \<times> string" where
  "split_loop cp [] st = st"
| "split_loop cp (sentence # rest) (splits, current_content) =
     split_loop cp rest
       (if int (count_tokens cp (current_content @ sentence)) > max_tokens cp then
          (if current_content \<noteq> [] then (splits @ [strip current_content], sentence @ ''. '')
           else (splits @ [strip sentence], current_content))
        else (splits, current_content @ sentence @ ''. ''))"

definition split_contents :: "chunk_processor \<Rightarrow> string \<Rightarrow> string list" where
  "split_contents cp c =
     (case split_loop cp (split_sentences c) ([], []) of
        (splits, current_content) \<Rightarrow>
          if current_content \<noteq> [] then splits @ [strip current_content] else splits)"

text \<open>
  \<open>uuid.uuid4()\<close> is a source of identifiers: \<open>uuid4 k\<close> is the identifier of the \<open>k\<close>-th
  draw, and every function that draws takes the number of draws made so far and returns
  the new one.
\<close>

definition split_large_chunk :: "chunk_processor \<Rightarrow> (nat \<Rightarrow> string) \<Rightarrow> nat \<Rightarrow> chunk \<Rightarrow> chunk list \<times> nat" where
  "split_large_chunk cp uuid4 n ch =
     (let splits = split_contents cp (content ch)
      in (map (\<lambda>(i, split_content).
                \<lparr>chunk_id = uuid4 (n + i),
                 source_url = source_url ch,
                 main_heading = Some (format_str (main_heading ch) @ '' (Part '' @ str_nat (i + 1) @ '')''),
                 content = split_content,
                 summary = ''''\<rparr>)
              (List.enumerate 0 splits),
          n + length splits))"

definition process_chunk :: "chunk_processor \<Rightarrow> (nat \<Rightarrow> string) \<Rightarrow> nat \<Rightarrow> segment \<Rightarrow> string \<Rightarrow> chunk list \<times> nat" where
  "process_chunk cp uuid4 n seg url =
     (let processed_chunk = \<lparr>chunk_id = uuid4 n, source_url = url,
                              main_heading = seg_main_heading seg,
                              content = strip (seg_content seg), summary = ''''\<rparr>;
          token_count = count_tokens cp (content processed_chunk)
      in if int token_count > max_tokens cp then split_large_chunk cp uuid4 (n + 1) processed_chunk
         else ([processed_chunk], n + 1))"

text \<open>The loop of \<open>main\<close> that extends \<open>processed_chunks\<close> segment by segment.\<close>

fun process_chunks :: "chunk_processor \<Rightarrow> (nat \<Rightarrow> string) \<Rightarrow> nat \<Rightarrow> segment list \<Rightarrow> string \<Rightarrow> chunk list \<times> nat" where
  "process_chunks cp uuid4 n [] url = ([], n)"
| "process_chunks cp uuid4 n (seg # segs) url =
     (case process_chunk cp uuid4 n seg url of
        (cs, n1) \<Rightarrow>
          (case process_chunks cp uuid4 n1 segs url of
             (cs', n2) \<Rightarrow> (cs @ cs', n2)))"

section \<open>Validator\<close>

text \<open>
  \<open>validate_completeness\<close> returns a boolean and logs; a raised exception is the left
  summand. The quotient is Python's true division of two integers, compared with the
  literal \<open>0.05\<close>; on lengths below \<open>10^15\<close> the rounded comparison agrees with the exact one
  over the rationals, which is what the model computes.
\<close>

definition validate_completeness :: "string \<Rightarrow> chunk list \<Rightarrow> (string \<rightharpoonup> nat) \<Rightarrow> py_error + (bool \<times> log_record list)" where
  "validate_completeness original_content processed_chunks heading_counts =
     (case heading_counts ''h1'' of
        None \<Rightarrow> Inl KeyError
      | Some h1 \<Rightarrow>
     (case heading_counts ''h2'' of
        None \<Rightarrow> Inl KeyError
      | Some h2 \<Rightarrow>
        let original_h1h2_count = h1 + h2;
            processed_h1h2_count = length processed_chunks
        in if original_h1h2_count \<noteq> processed_h1h2_count then
             Inr (False,
                  [LogError (''Mismatch in h1 and h2 headings. Original: '' @ str_nat original_h1h2_count
                             @ '', Processed: '' @ str_nat processed_h1h2_count)])
           else
             let original_content_length = length original_content;
                 processed_content_length = sum_list (map (\<lambda>c. length (content c)) processed_chunks)
             in if original_content_length = 0 then Inl ZeroDivisionError
                else if (of_int \<bar>int original_content_length - int processed_content_length\<bar> :: rat)
                          / of_nat original_content_length > 5 / 100 then
                  Inr (True,
                       [LogWarning (''Significant content length mismatch. Original: ''
                                    @ str_nat original_content_length @ '', Processed: ''
                                    @ str_nat processed_content_length)])
                else Inr (True, [])))"

section \<open>SummaryGenerator\<close>

text \<open>
  What one call of the completion service resolves to: a message (the \<open>text\<close> of each of its
  content blocks), the throttling exception, or any other \<open>Exception\<close> with its \<open>str\<close>.
\<close>

datatype outcome = Response "string list" | RateLimitError | OtherError string

text \<open>
  Where an activation of the coroutine \<open>_process_chunk\<close> is suspended: entering
  \<open>async with semaphore\<close>; inside it, awaiting \<open>asyncio.to_thread(...)\<close>; inside it, awaiting
  \<open>asyncio.sleep(1)\<close> in the handler of \<open>RateLimitError\<close>; inside it, awaiting the nested
  \<open>self._process_chunk(chunk, semaphore)\<close> of that handler.
\<close>

datatype frame = AtAcquire | InCall | InSleep | InRetry

text \<open>
  A task of the \<open>gather\<close>: the chunk dictionary it mutates and the stack of activations of
  \<open>_process_chunk\<close>, innermost first; the stack is empty once the outermost one has returned.
\<close>

record task =
  task_chunk :: chunk
  frames :: "frame list"

record sg_state =
  semaphore :: nat
  tasks :: "task list"
  logged :: "log_record list"

text \<open>
  The event loop runs one task at a time up to its next suspension. \<open>Acquire i\<close>: task \<open>i\<close>
  gets a slot and issues its call; \<open>Resolve i r\<close>: the call of task \<open>i\<close> resolves to \<open>r\<close>;
  \<open>Wake i\<close>: the sleep of task \<open>i\<close> is over and its retry arrives at the semaphore. A
  slot that is free when a task arrives is taken by the \<open>Acquire\<close> that follows at once;
  a task that finds none waits until an \<open>Acquire\<close> of it is possible.
\<close>

datatype event = Acquire nat | Resolve nat outcome | Wake nat

definition holds_slot :: "frame \<Rightarrow> bool" where
  "holds_slot f = (f \<noteq> AtAcquire)"

text \<open>
  The innermost activation leaves its \<open>async with\<close> block and returns the chunk; each
  suspended activation below it receives the value at \<open>return await ...\<close>, leaves its own
  \<open>async with\<close> block and returns in turn. Every block left releases one slot.
\<close>

definition return_chunk :: "nat \<Rightarrow> chunk \<Rightarrow> log_record list \<Rightarrow> sg_state \<Rightarrow> sg_state" where
  "return_chunk i c msgs s =
     s\<lparr>semaphore := semaphore s + length (filter holds_slot (frames (tasks s ! i))),
       tasks := (tasks s)[i := \<lparr>task_chunk = c, frames = []\<rparr>],
       logged := logged s @ msgs\<rparr>"

definition error_message :: "chunk \<Rightarrow> string \<Rightarrow> log_record" where
  "error_message c e = LogError (''Error processing chunk '' @ chunk_id c @ '': '' @ e)"

fun step :: "event \<Rightarrow> sg_state \<Rightarrow> sg_state option" where
  "step (Acquire i) s =
     (if i < length (tasks s) then
        (case frames (tasks s ! i) of
           AtAcquire # fs \<Rightarrow>
             if semaphore s > 0 then
               Some (s\<lparr>semaphore := semaphore s - 1,
                       tasks := (tasks s)[i := (tasks s ! i)\<lparr>frames := InCall # fs\<rparr>]\<rparr>)
             else None
         | _ \<Rightarrow> None)
      else None)"
| "step (Resolve i r) s =
     (if i < length (tasks s) then
        (case frames (tasks s ! i) of
           InCall # fs \<Rightarrow>
             (let c = task_chunk (tasks s ! i)
              in case r of
                   Response texts \<Rightarrow>
                     (case texts of
                        t # _ \<Rightarrow> Some (return_chunk i (c\<lparr>summary := t\<rparr>) [] s)
                      | [] \<Rightarrow> Some (return_chunk i (c\<lparr>summary := ''''\<rparr>)
                                      [error_message c ''list index out of range''] s))
                 | RateLimitError \<Rightarrow>
                     Some (s\<lparr>tasks := (tasks s)[i := (tasks s ! i)\<lparr>frames := InSleep # fs\<rparr>]\<rparr>)
                 | OtherError e \<Rightarrow>
                     Some (return_chunk i (c\<lparr>summary := ''''\<rparr>) [error_message c e] s))
         | _ \<Rightarrow> None)
      else None)"
| "step (Wake i) s =
     (if i < length (tasks s) then
        (case frames (tasks s ! i) of
           InSleep # fs \<Rightarrow>
             Some (s\<lparr>tasks := (tasks s)[i := (tasks s ! i)\<lparr>frames := AtAcquire # InRetry # fs\<rparr>]\<rparr>)
         | _ \<Rightarrow> None)
      else None)"

fun exec :: "event list \<Rightarrow> sg_state \<Rightarrow> sg_state option" where
  "exec [] s = Some s"
| "exec (ev # evs) s = (case step ev s of None \<Rightarrow> None | Some s' \<Rightarrow> exec evs s')"

text \<open>
  \<open>generate_summaries\<close> up to the \<open>await\<close> of the gather: \<open>asyncio.Semaphore\<close> refuses a
  negative value, and every chunk gets a task that starts at the semaphore.
\<close>

definition generate_summaries_start :: "int \<Rightarrow> chunk list \<Rightarrow> py_error + sg_state" where
  "generate_summaries_start max_concurrent_requests cs =
     (if max_concurrent_requests < 0 then Inl ValueError
      else Inr \<lparr>semaphore = nat max_concurrent_requests,
                tasks = map (\<lambda>c. \<lparr>task_chunk = c, frames = [AtAcquire]\<rparr>) cs,
                logged = []\<rparr>)"

text \<open>The gather returns, in the order of the tasks, once every task has returned.\<close>

definition summarized_chunks :: "sg_state \<Rightarrow> chunk list option" where
  "summarized_chunks s =
     (if list_all (\<lambda>t. frames t = []) (tasks s) then Some (map task_chunk (tasks s)) else None)"

text \<open>The calls of the completion service that have been issued and have not resolved.\<close>

definition in_flight :: "sg_state \<Rightarrow> nat" where
  "in_flight s = length (filter (\<lambda>t. case frames t of InCall # _ \<Rightarrow> True | _ \<Rightarrow> False) (tasks s))"

text \<open>The slots held: one for each activation that is inside its \<open>async with\<close> block.\<close>

definition slots_held :: "sg_state \<Rightarrow> nat" where
  "slots_held s = sum_list (map (\<lambda>t. length (filter holds_slot (frames t))) (tasks s))"

section \<open>The statistics of main\<close>

definition size_ranges :: "(nat \<times> enat) list" where
  "size_ranges = [(0, 500), (501, 1000), (1001, 1500), (1501, 2000), (2001, \<infinity>)]"

text \<open>The rendering of a range's upper end: an integer, or \<open>float('inf')\<close>.\<close>

fun str_end :: "enat \<Rightarrow> string" where
  "str_end (enat n) = str_nat n"
| "str_end \<infinity> = ''inf''"

text \<open>
  The dictionary \<open>size_distribution\<close>, in the order of its keys: for each range the number
  of sizes with \<open>start <= size < end\<close>.
\<close>

definition size_distribution :: "nat list \<Rightarrow> (string \<times> nat) list" where
  "size_distribution chunk_sizes =
     map (\<lambda>(start, stop).
            (str_nat start @ ''-'' @ str_end stop,
             length (filter (\<lambda>size. start \<le> size \<and> enat size < stop) chunk_sizes)))
         size_ranges"

section \<open>main\<close>

text \<open>
  One iteration of the loop of \<open>main\<close> over the pages, up to the value of
  \<open>Validator.validate_completeness\<close>: \<open>elems\<close> are the children of the tree the markdown
  parser builds from the page's text, \<open>schedule\<close> is the order in which the event loop runs
  the tasks of \<open>generate_summaries\<close> and what their calls resolve to. The result is \<open>None\<close>
  when the schedule is not one the tasks can follow or leaves the gather waiting.
\<close>

definition main_page ::
  "chunk_processor \<Rightarrow> (nat \<Rightarrow> string) \<Rightarrow> nat \<Rightarrow> int \<Rightarrow> event list \<Rightarrow> string \<Rightarrow> element list \<Rightarrow> string
   \<Rightarrow> (py_error + bool \<times> log_record list) option" where
  "main_page cp uuid4 n max_concurrent_requests schedule markdown_text elems url =
     (let hc = run HeadingCollector_init elems
      in case process_chunks cp uuid4 n (chunks hc) url of
           (processed_chunks, n') \<Rightarrow>
             (case generate_summaries_start max_concurrent_requests processed_chunks of
                Inl e \<Rightarrow> Some (Inl e)
              | Inr s0 \<Rightarrow>
                  (case exec schedule s0 of
                     None \<Rightarrow> None
                   | Some s \<Rightarrow>
                       (case summarized_chunks s of
                          None \<Rightarrow> None
                        | Some summarized \<Rightarrow>
                            Some (validate_completeness markdown_text summarized
                                    [''h1'' \<mapsto> h1_count hc, ''h2'' \<mapsto> h2_count hc])))))"

section \<open>Notions the properties are stated with\<close>

text \<open>
  The segments emitted so far plus the one that is open, if any.
\<close>

definition open_and_emitted :: "heading_collector \<Rightarrow> nat" where
  "open_and_emitted hc =
     length (chunks hc) + (case current_chunk hc of None \<Rightarrow> 0 | Some c \<Rightarrow> 1)"

text \<open>The test \<open>element.tag in ['h1', 'h2']\<close>.\<close>

definition is_h1h2 :: "element \<Rightarrow> bool" where
  "is_h1h2 e = (tag e = ''h1'' \<or> tag e = ''h2'')"

text \<open>
  How \<open>split_large_chunk\<close> groups the sentence units: a unit appended to \<open>splits\<close> on its
  own, or the units that were in \<open>current_content\<close> when it was flushed. \<open>buffer_of\<close> is
  the text of \<open>current_content\<close> that holds the given units, and \<open>render\<close> is the split a
  group is emitted as.
\<close>

datatype split_group = Alone string | Buffered "string list"

fun units :: "split_group \<Rightarrow> string list" where
  "units (Alone s) = [s]"
| "units (Buffered ss) = ss"

definition buffer_of :: "string list \<Rightarrow> string" where
  "buffer_of ss = concat (map (\<lambda>s. s @ ''. '') ss)"

fun render :: "split_group \<Rightarrow> string" where
  "render (Alone s) = strip s"
| "render (Buffered ss) = strip (buffer_of ss)"

text \<open>
  What the comparisons of the loop have established of a buffer of two or more units: the
  text compared with the budget was the buffer with its last unit, without that unit's
  delimiter.
\<close>

definition buffer_checked :: "chunk_processor \<Rightarrow> string list \<Rightarrow> bool" where
  "buffer_checked cp us =
     (length us < 2 \<or> int (count_tokens cp (buffer_of (butlast us) @ last us)) \<le> max_tokens cp)"

text \<open>
  A unit is emitted on its own only when it alone is over the budget; a flushed buffer
  holds at least one unit and has passed the comparisons above.
\<close>

fun group_ok :: "chunk_processor \<Rightarrow> split_group \<Rightarrow> bool" where
  "group_ok cp (Alone s) = (int (count_tokens cp s) > max_tokens cp)"
| "group_ok cp (Buffered ss) =
     (ss \<noteq> [] \<and> (length ss < 2
                  \<or> int (count_tokens cp (buffer_of (butlast ss) @ last ss)) \<le> max_tokens cp))"

text \<open>The token count of a text is over the budget of the processor.\<close>

definition over_budget :: "chunk_processor \<Rightarrow> string \<Rightarrow> bool" where
  "over_budget cp u = (int (count_tokens cp u) > max_tokens cp)"


section \<open>Concrete inputs\<close>

text \<open>Blocks of small documents.\<close>

definition h1_block :: element where
  "h1_block = \<lparr>tag = ''h1'', elem_text = Some ''A'', tostring = ''<h1>A</h1>''\<rparr>"

definition h2_block :: element where
  "h2_block = \<lparr>tag = ''h2'', elem_text = Some ''B'', tostring = ''<h2>B</h2>''\<rparr>"

definition h3_block :: element where
  "h3_block = \<lparr>tag = ''h3'', elem_text = Some ''C'', tostring = ''<h3>C</h3>''\<rparr>"

definition p_block :: element where
  "p_block = \<lparr>tag = ''p'', elem_text = Some ''intro'', tostring = ''<p>intro</p>''\<rparr>"

definition para_block :: element where
  "para_block = \<lparr>tag = ''p'', elem_text = Some ''ab. cd. e'', tostring = ''<p>ab. cd. e</p>''\<rparr>"

text \<open>A sequence of identifiers for \<open>uuid4\<close>.\<close>

definition example_uuid4 :: "nat \<Rightarrow> string" where
  "example_uuid4 k = ''id-'' @ str_nat k"

text \<open>
  Chunk processors whose token counter gives one token to every character: with the
  default budgets of \<open>ChunkProcessor\<close>, with a budget of six tokens, and with none.
\<close>

definition char_counter :: chunk_processor where
  "char_counter = \<lparr>count_tokens = length, min_tokens = 800, max_tokens = 1200\<rparr>"

definition small_processor :: chunk_processor where
  "small_processor = \<lparr>count_tokens = length, min_tokens = 4, max_tokens = 6\<rparr>"

definition zero_budget :: chunk_processor where
  "zero_budget = \<lparr>count_tokens = length, min_tokens = 0, max_tokens = 0\<rparr>"

definition three_units :: chunk where
  "three_units = \<lparr>chunk_id = ''id-0'', source_url = ''u'', main_heading = Some ''A'',
                   content = ''ab. cd. e'', summary = ''''\<rparr>"


definition unit_budget :: chunk_processor where
  "unit_budget = \<lparr>count_tokens = length, min_tokens = 0, max_tokens = 1\<rparr>"

text \<open>
  Segments: of whitespace only; with text after a leading space; with a sentence unit of
  one space; with a sentence unit of two spaces.
\<close>

definition blank_segment :: segment where
  "blank_segment = \<lparr>seg_main_heading = Some ''A'', seg_content = ''  '', seg_level = 1\<rparr>"

definition padded_segment :: segment where
  "padded_segment = \<lparr>seg_main_heading = Some ''A'', seg_content = '' ab. cd. e'', seg_level = 1\<rparr>"

definition blank_unit_segment :: segment where
  "blank_unit_segment = \<lparr>seg_main_heading = Some ''A'', seg_content = ''a.  . b'', seg_level = 1\<rparr>"

definition wide_blank_segment :: segment where
  "wide_blank_segment = \<lparr>seg_main_heading = Some ''A'', seg_content = ''a.   . b'', seg_level = 1\<rparr>"


text \<open>A state of the summarizer with the single task of \<open>three_units\<close>.\<close>

definition single_task_state :: "nat \<Rightarrow> frame list \<Rightarrow> sg_state" where
  "single_task_state free fs =
     \<lparr>semaphore = free, tasks = [\<lparr>task_chunk = three_units, frames = fs\<rparr>], logged = []\<rparr>"

section \<open>The heading segmenter\<close>

lemma visit_counts:
  "open_and_emitted hc = h1_count hc + h2_count hc \<Longrightarrow>
   open_and_emitted (visit hc e) = h1_count (visit hc e) + h2_count (visit hc e)"
  by (auto simp: visit_def open_and_emitted_def append_content_def Let_def split: option.splits)

lemma walk_counts:
  "open_and_emitted hc = h1_count hc + h2_count hc \<Longrightarrow>
   open_and_emitted (walk hc es) = h1_count (walk hc es) + h2_count (walk hc es)"
  unfolding walk_def
proof (induction es arbitrary: hc)
  case Nil
  then show ?case by simp
next
  case (Cons e es)
  from Cons.prems have "open_and_emitted (visit hc e) = h1_count (visit hc e) + h2_count (visit hc e)"
    by (rule visit_counts)
  then show ?case using Cons.IH by simp
qed

lemma run_counts:
  "open_and_emitted hc = h1_count hc + h2_count hc \<Longrightarrow>
   length (chunks (run hc es)) = h1_count (run hc es) + h2_count (run hc es)"
  using walk_counts [of hc es]
  by (auto simp: run_def Let_def open_and_emitted_def split: option.splits)

text \<open>
  C5. For every block sequence walked from the initial state of the collector, the number
  of segments \<open>run\<close> emits is the h1 count plus the h2 count of the same pass; during the
  walk the emitted segments plus the open one, if any, equal the h1 and h2 headings seen.
\<close>

theorem segments_equal_h1_plus_h2:
  "length (chunks (run HeadingCollector_init elems))
     = h1_count (run HeadingCollector_init elems) + h2_count (run HeadingCollector_init elems)
   \<and> open_and_emitted (walk HeadingCollector_init elems)
     = h1_count (walk HeadingCollector_init elems) + h2_count (walk HeadingCollector_init elems)"
proof -
  have init: "open_and_emitted HeadingCollector_init
                = h1_count HeadingCollector_init + h2_count HeadingCollector_init"
    by (simp add: open_and_emitted_def HeadingCollector_init_def)
  show ?thesis using run_counts [OF init] walk_counts [OF init] by simp
qed

lemma visit_h3_offset:
  "visit (hc\<lparr>h3_count := h3_count hc + k\<rparr>) e = (visit hc e)\<lparr>h3_count := h3_count (visit hc e) + k\<rparr>"
  by (auto simp: visit_def Let_def split: option.splits)

lemma walk_h3_offset:
  "walk (hc\<lparr>h3_count := h3_count hc + k\<rparr>) es = (walk hc es)\<lparr>h3_count := h3_count (walk hc es) + k\<rparr>"
  unfolding walk_def
proof (induction es arbitrary: hc)
  case Nil
  show ?case by simp
next
  case (Cons e es)
  show ?case using Cons.IH [of "visit hc e"] by (simp add: visit_h3_offset)
qed

lemma visit_dropped:
  "\<not> is_h1h2 e \<Longrightarrow> current_chunk hc = None \<Longrightarrow>
   visit hc e = hc\<lparr>h3_count := h3_count hc + (if tag e = ''h3'' then 1 else 0)\<rparr>"
  by (auto simp: visit_def is_h1h2_def append_content_def)

lemma walk_dropped:
  "list_all (\<lambda>b. \<not> is_h1h2 b) pre \<Longrightarrow> current_chunk hc = None \<Longrightarrow>
   walk hc pre = hc\<lparr>h3_count := h3_count hc + length (filter (\<lambda>b. tag b = ''h3'') pre)\<rparr>"
  unfolding walk_def
proof (induction pre arbitrary: hc)
  case Nil
  show ?case by simp
next
  case (Cons e pre)
  from Cons.prems have e: "\<not> is_h1h2 e" and rest: "list_all (\<lambda>b. \<not> is_h1h2 b) pre" by simp_all
  have v: "visit hc e = hc\<lparr>h3_count := h3_count hc + (if tag e = ''h3'' then 1 else 0)\<rparr>"
    using e Cons.prems(2) by (rule visit_dropped)
  have "current_chunk (visit hc e) = None" using v Cons.prems(2) by simp
  from Cons.IH [OF rest this] show ?case using v by simp
qed

lemma walk_append: "walk hc (xs @ ys) = walk (walk hc xs) ys"
  by (simp add: walk_def)

lemma run_dropped:
  assumes "list_all (\<lambda>b. \<not> is_h1h2 b) pre"
  shows "run HeadingCollector_init (pre @ rest)
         = (run HeadingCollector_init rest)
             \<lparr>h3_count := h3_count (run HeadingCollector_init rest) + length (filter (\<lambda>b. tag b = ''h3'') pre)\<rparr>"
proof -
  let ?k = "length (filter (\<lambda>b. tag b = ''h3'') pre)"
  have "walk HeadingCollector_init pre
        = HeadingCollector_init\<lparr>h3_count := h3_count HeadingCollector_init + ?k\<rparr>"
    using assms by (rule walk_dropped) (simp add: HeadingCollector_init_def)
  then have "walk HeadingCollector_init (pre @ rest)
        = (walk HeadingCollector_init rest)\<lparr>h3_count := h3_count (walk HeadingCollector_init rest) + ?k\<rparr>"
    by (simp add: walk_append walk_h3_offset)
  then show ?thesis
    by (auto simp: run_def Let_def split: option.splits)
qed

text \<open>
  C6. A level-3 heading leaves the list of emitted segments as it is and opens nothing: the
  open segment, if there is one, gets the block's serialized form appended, and no segment
  is open afterwards if none was before. Blocks before the first level-1/2 heading change
  nothing but the h3 counter, so a document with no level-1/2 heading yields no segment.
\<close>

theorem h3_never_opens_and_leading_blocks_dropped:
  "(tag e = ''h3'' \<longrightarrow>
      chunks (visit hc e) = chunks hc
      \<and> current_chunk (visit hc e)
          = (case current_chunk hc of
               None \<Rightarrow> None
             | Some c \<Rightarrow> Some (c\<lparr>seg_content := seg_content c @ tostring e\<rparr>)))
   \<and> (list_all (\<lambda>b. \<not> is_h1h2 b) pre \<longrightarrow>
        run HeadingCollector_init (pre @ rest)
          = (run HeadingCollector_init rest)
              \<lparr>h3_count := h3_count (run HeadingCollector_init rest)
                              + length (filter (\<lambda>b. tag b = ''h3'') pre)\<rparr>
        \<and> chunks (run HeadingCollector_init pre) = [])"
proof (intro conjI impI)
  assume "tag e = ''h3''"
  then show "chunks (visit hc e) = chunks hc" by (simp add: visit_def)
  show "current_chunk (visit hc e)
          = (case current_chunk hc of
               None \<Rightarrow> None
             | Some c \<Rightarrow> Some (c\<lparr>seg_content := seg_content c @ tostring e\<rparr>))"
    using \<open>tag e = ''h3''\<close> by (simp add: visit_def append_content_def)
next
  assume p: "list_all (\<lambda>b. \<not> is_h1h2 b) pre"
  then show "run HeadingCollector_init (pre @ rest)
          = (run HeadingCollector_init rest)
              \<lparr>h3_count := h3_count (run HeadingCollector_init rest)
                              + length (filter (\<lambda>b. tag b = ''h3'') pre)\<rparr>"
    by (rule run_dropped)
  from run_dropped [OF p, of "[]"] show "chunks (run HeadingCollector_init pre) = []"
    by (simp add: run_def walk_def HeadingCollector_init_def)
qed

theorem h3_never_opens_and_leading_blocks_dropped_witness:
  "tag h3_block = ''h3''
   \<and> list_all (\<lambda>b. \<not> is_h1h2 b) [p_block, h3_block]
   \<and> chunks (visit (walk HeadingCollector_init [h1_block]) h3_block) = []
   \<and> current_chunk (visit (walk HeadingCollector_init [h1_block]) h3_block)
       = Some \<lparr>seg_main_heading = Some ''A'', seg_content = ''<h3>C</h3>'', seg_level = 1\<rparr>
   \<and> chunks (run HeadingCollector_init ([p_block, h3_block] @ [h1_block, p_block]))
       = [\<lparr>seg_main_heading = Some ''A'', seg_content = ''<p>intro</p>'', seg_level = 1\<rparr>]
   \<and> chunks (run HeadingCollector_init [p_block, h3_block]) = []"
proof -
  have a: "tag h3_block = ''h3''" by (simp add: h3_block_def)
  have b: "list_all (\<lambda>b. \<not> is_h1h2 b) [p_block, h3_block]"
    by (simp add: is_h1h2_def p_block_def h3_block_def)
  note inst = h3_never_opens_and_leading_blocks_dropped
    [of h3_block "walk HeadingCollector_init [h1_block]" "[p_block, h3_block]" "[h1_block, p_block]"]
  from inst a have c: "chunks (visit (walk HeadingCollector_init [h1_block]) h3_block)
                      = chunks (walk HeadingCollector_init [h1_block])"
    and d: "current_chunk (visit (walk HeadingCollector_init [h1_block]) h3_block)
            = (case current_chunk (walk HeadingCollector_init [h1_block]) of
                 None \<Rightarrow> None
               | Some c \<Rightarrow> Some (c\<lparr>seg_content := seg_content c @ tostring h3_block\<rparr>))"
    by blast+
  from inst b have e: "run HeadingCollector_init ([p_block, h3_block] @ [h1_block, p_block])
          = (run HeadingCollector_init [h1_block, p_block])
              \<lparr>h3_count := h3_count (run HeadingCollector_init [h1_block, p_block])
                              + length (filter (\<lambda>b. tag b = ''h3'') [p_block, h3_block])\<rparr>"
    and f: "chunks (run HeadingCollector_init [p_block, h3_block]) = []"
    by blast+
  have w: "walk HeadingCollector_init [h1_block]
           = \<lparr>chunks = [],
              current_chunk = Some \<lparr>seg_main_heading = Some ''A'', seg_content = [], seg_level = 1\<rparr>,
              h1_count = 1, h2_count = 0, h3_count = 0\<rparr>"
    by (simp add: walk_def visit_def HeadingCollector_init_def h1_block_def)
  have r: "chunks (run HeadingCollector_init [h1_block, p_block])
           = [\<lparr>seg_main_heading = Some ''A'', seg_content = ''<p>intro</p>'', seg_level = 1\<rparr>]"
    by (simp add: run_def walk_def visit_def append_content_def HeadingCollector_init_def
                  h1_block_def p_block_def)
  show ?thesis using a b c d e f by (simp add: w r h3_block_def)
qed

section \<open>The token budget splitter\<close>

lemma split_sentences_not_Nil: "split_sentences s \<noteq> []"
  by (induction s rule: split_sentences.induct) (auto split: list.splits)

lemma join_Cons_Cons: "join sep ((c # w) # ws) = c # join sep (w # ws)"
  by (cases ws) simp_all

text \<open>Joining the units of \<open>split('. ')\<close> by the delimiter gives the text back.\<close>

lemma join_split_sentences: "join ''. '' (split_sentences s) = s"
proof (induction s rule: split_sentences.induct)
  case 1
  show ?case by simp
next
  case (2 c)
  show ?case by simp
next
  case (3 c d cs)
  show ?case
  proof (cases "c = CHR ''.'' \<and> d = CHR '' ''")
    case True
    obtain w ws where "split_sentences cs = w # ws"
      using split_sentences_not_Nil [of cs] by (cases "split_sentences cs") auto
    then show ?thesis using True 3 by simp
  next
    case False
    obtain w ws where "split_sentences (d # cs) = w # ws"
      using split_sentences_not_Nil [of "d # cs"] by (cases "split_sentences (d # cs)") auto
    then show ?thesis using False 3 by (auto simp: join_Cons_Cons)
  qed
qed

lemma buffer_of_Nil_iff: "buffer_of us = [] \<longleftrightarrow> us = []"
  by (cases us) (simp_all add: buffer_of_def)

lemma buffer_of_snoc: "buffer_of (us @ [s]) = buffer_of us @ s @ ''. ''"
  by (simp add: buffer_of_def)

lemma split_loop_groups:
  "list_all (group_ok cp) gs0 \<Longrightarrow> buffer_checked cp us0 \<Longrightarrow>
   \<exists>gs us. split_loop cp ss (map render gs0, buffer_of us0) = (map render gs, buffer_of us)
          \<and> concat (map units gs) @ us = concat (map units gs0) @ us0 @ ss
          \<and> list_all (group_ok cp) gs \<and> buffer_checked cp us"
proof (induction ss arbitrary: gs0 us0)
  case Nil
  then show ?case by auto
next
  case (Cons s ss)
  show ?case
  proof (cases "int (count_tokens cp (buffer_of us0 @ s)) > max_tokens cp")
    case over: True
    show ?thesis
    proof (cases "us0 = []")
      case True
      with over have ok: "list_all (group_ok cp) (gs0 @ [Alone s])"
        using Cons.prems(1) by (simp add: buffer_of_def)
      have ch: "buffer_checked cp []" by (simp add: buffer_checked_def)
      from Cons.IH [OF ok ch] obtain gs us where
        "split_loop cp ss (map render (gs0 @ [Alone s]), buffer_of []) = (map render gs, buffer_of us)"
        "concat (map units gs) @ us = concat (map units (gs0 @ [Alone s])) @ [] @ ss"
        "list_all (group_ok cp) gs" "buffer_checked cp us" by blast
      then show ?thesis using over True by (auto simp: buffer_of_def)
    next
      case False
      then have ok: "list_all (group_ok cp) (gs0 @ [Buffered us0])"
        using Cons.prems by (simp add: buffer_checked_def)
      have ch: "buffer_checked cp [s]" by (simp add: buffer_checked_def)
      from Cons.IH [OF ok ch] obtain gs us where
        "split_loop cp ss (map render (gs0 @ [Buffered us0]), buffer_of [s]) = (map render gs, buffer_of us)"
        "concat (map units gs) @ us = concat (map units (gs0 @ [Buffered us0])) @ [s] @ ss"
        "list_all (group_ok cp) gs" "buffer_checked cp us" by blast
      moreover have "buffer_of us0 \<noteq> []" using False by (simp add: buffer_of_Nil_iff)
      ultimately show ?thesis using over by (auto simp: buffer_of_def)
    qed
  next
    case False
    then have ch: "buffer_checked cp (us0 @ [s])" by (simp add: buffer_checked_def)
    from Cons.IH [OF Cons.prems(1) ch] obtain gs us where
      "split_loop cp ss (map render gs0, buffer_of (us0 @ [s])) = (map render gs, buffer_of us)"
      "concat (map units gs) @ us = concat (map units gs0) @ (us0 @ [s]) @ ss"
      "list_all (group_ok cp) gs" "buffer_checked cp us" by blast
    then show ?thesis using False by (auto simp: buffer_of_snoc)
  qed
qed

lemma split_contents_groups:
  "\<exists>gs. split_contents cp c = map render gs
       \<and> concat (map units gs) = split_sentences c
       \<and> list_all (group_ok cp) gs"
proof -
  have "list_all (group_ok cp) []" and "buffer_checked cp []"
    by (simp_all add: buffer_checked_def)
  from split_loop_groups [OF this, of "split_sentences c"] obtain gs us where
    l: "split_loop cp (split_sentences c) ([], []) = (map render gs, buffer_of us)"
    and u: "concat (map units gs) @ us = split_sentences c"
    and ok: "list_all (group_ok cp) gs" and ch: "buffer_checked cp us"
    by (auto simp: buffer_of_def)
  show ?thesis
  proof (cases "us = []")
    case True
    then show ?thesis using l u ok
      by (intro exI [of _ gs]) (simp add: split_contents_def buffer_of_def)
  next
    case False
    then have "buffer_of us \<noteq> []" by (simp add: buffer_of_Nil_iff)
    then show ?thesis using l u ok ch False
      by (intro exI [of _ "gs @ [Buffered us]"]) (simp add: split_contents_def buffer_checked_def)
  qed
qed

lemma contents_split_large_chunk:
  "map content (fst (split_large_chunk cp uuid4 n ch)) = split_contents cp (content ch)"
  by (simp add: split_large_chunk_def Let_def comp_def case_prod_unfold map_snd_enumerate)

text \<open>
  At the level of the sentence units nothing is lost: the contents of the sub-chunks, in
  emission order, are the renderings of consecutive groups of the units of
  \<open>content.split('. ')\<close>; the groups taken in order hold every unit exactly once and in its
  place, and the units joined by the delimiter are the original content.
\<close>

lemma split_partitions_units:
  "\<exists>gs. map content (fst (split_large_chunk cp uuid4 n ch)) = map render gs
       \<and> concat (map units gs) = split_sentences (content ch)
       \<and> join ''. '' (concat (map units gs)) = content ch
       \<and> list_all (group_ok cp) gs"
proof -
  obtain gs where "split_contents cp (content ch) = map render gs"
    "concat (map units gs) = split_sentences (content ch)" "list_all (group_ok cp) gs"
    using split_contents_groups by blast
  then show ?thesis
    by (intro exI [of _ gs]) (simp add: contents_split_large_chunk join_split_sentences)
qed

lemma split_contents_three_units:
  "split_contents small_processor ''ab. cd. e'' = [''ab. cd.'', ''e.'']"
  by (simp add: split_contents_def small_processor_def strip_def isspace_def whitespace_def)

text \<open>
  C2. The loop restores the delimiter by appending it to every unit it puts in the buffer,
  the last one included, and \<open>strip\<close> then leaves that delimiter's full stop at the end of
  the split. With one token per character and a budget of six, \<open>ab. cd. e\<close> is split into
  \<open>ab. cd.\<close> and \<open>e.\<close>, and \<open>AAAAAAA. b\<close> into \<open>AAAAAAA\<close> and \<open>b.\<close>: joined by the
  delimiter (or by a space, or by nothing) the splits are not the content, which has no
  full stop at its end. The branch that emits a unit on its own appends no delimiter, and
  where every unit is emitted so, as for \<open>AAAAAAA. BBBBBBB\<close>, the splits joined by the
  delimiter are the content.
\<close>

theorem split_does_not_reconstruct:
  "int (count_tokens small_processor (content three_units)) > max_tokens small_processor
   \<and> map content (fst (split_large_chunk small_processor example_uuid4 1 three_units))
       = [''ab. cd.'', ''e.'']
   \<and> join ''. '' (map content (fst (split_large_chunk small_processor example_uuid4 1 three_units)))
       \<noteq> content three_units
   \<and> join '' '' (map content (fst (split_large_chunk small_processor example_uuid4 1 three_units)))
       \<noteq> content three_units
   \<and> concat (map content (fst (split_large_chunk small_processor example_uuid4 1 three_units)))
       \<noteq> content three_units
   \<and> map content (fst (split_large_chunk small_processor example_uuid4 1
                         (three_units\<lparr>content := ''AAAAAAA. b''\<rparr>)))
       = [''AAAAAAA'', ''b.'']
   \<and> join ''. '' (map content (fst (split_large_chunk small_processor example_uuid4 1
                                      (three_units\<lparr>content := ''AAAAAAA. b''\<rparr>))))
       \<noteq> ''AAAAAAA. b''
   \<and> map content (fst (split_large_chunk small_processor example_uuid4 1
                         (three_units\<lparr>content := ''AAAAAAA. BBBBBBB''\<rparr>)))
       = [''AAAAAAA'', ''BBBBBBB'']
   \<and> join ''. '' (map content (fst (split_large_chunk small_processor example_uuid4 1
                                      (three_units\<lparr>content := ''AAAAAAA. BBBBBBB''\<rparr>))))
       = ''AAAAAAA. BBBBBBB''"
  by code_simp

text \<open>
  C3. The loop compares the budget with the buffer plus the unit, without the delimiter
  it then appends. With one token per character and a budget of six, the units \<open>ab\<close> and
  \<open>cd\<close> of \<open>ab. cd. e\<close> are each within the budget, the comparison of \<open>ab. cd\<close> passes with
  six tokens, and the split emitted for them, \<open>ab. cd.\<close>, has seven.
\<close>

theorem split_exceeds_budget_by_delimiter:
  "split_sentences (content three_units) = [''ab'', ''cd'', ''e'']
   \<and> map content (fst (split_large_chunk small_processor example_uuid4 1 three_units))
       = [''ab. cd.'', ''e.'']
   \<and> int (count_tokens small_processor ''ab'') \<le> max_tokens small_processor
   \<and> int (count_tokens small_processor ''cd'') \<le> max_tokens small_processor
   \<and> int (count_tokens small_processor (''ab. '' @ ''cd'')) \<le> max_tokens small_processor
   \<and> int (count_tokens small_processor ''ab. cd.'') > max_tokens small_processor"
  by (simp add: contents_split_large_chunk three_units_def split_contents_three_units)
     (simp add: small_processor_def)

text \<open>
  C8 as stated fails. A level-1 heading directly followed by a level-2 heading gives two
  segments with empty content, and \<open>process_chunk\<close> returns a chunk with empty content for
  each of them.
\<close>

theorem empty_segment_gives_empty_content:
  "chunks (run HeadingCollector_init [h1_block, h2_block])
     = [\<lparr>seg_main_heading = Some ''A'', seg_content = '''', seg_level = 1\<rparr>,
        \<lparr>seg_main_heading = Some ''B'', seg_content = '''', seg_level = 2\<rparr>]
   \<and> map content (fst (process_chunk char_counter example_uuid4 0
                         \<lparr>seg_main_heading = Some ''A'', seg_content = '''', seg_level = 1\<rparr> ''u''))
       = ['''']
   \<and> map content (fst (process_chunks char_counter example_uuid4 0
                         (chunks (run HeadingCollector_init [h1_block, h2_block])) ''u''))
       = ['''', '''']"
  by (simp add: run_def walk_def visit_def HeadingCollector_init_def h1_block_def h2_block_def
                process_chunk_def char_counter_def strip_def)

text \<open>
  A unit of whitespace that is over the budget on its own is emitted alone and stripped
  to the empty string.
\<close>

lemma blank_unit_over_budget_gives_empty_content:
  "map content (fst (process_chunk zero_budget example_uuid4 0
                      \<lparr>seg_main_heading = Some ''A'', seg_content = ''a.  . b'', seg_level = 1\<rparr> ''u''))
   = [''a'', '''', ''b'']"
  by code_simp

lemma strip_Nil_iff: "strip s = [] \<longleftrightarrow> list_all isspace s"
proof
  assume "strip s = []"
  then have a: "\<forall>x \<in> set (dropWhile isspace s). isspace x"
    by (simp add: strip_def dropWhile_eq_Nil_conv)
  have "dropWhile isspace s = []"
  proof (rule ccontr)
    assume n: "dropWhile isspace s \<noteq> []"
    then have "\<not> isspace (hd (dropWhile isspace s))" by (rule hd_dropWhile)
    moreover have "hd (dropWhile isspace s) \<in> set (dropWhile isspace s)" using n by simp
    ultimately show False using a by blast
  qed
  then show "list_all isspace s" by (simp add: dropWhile_eq_Nil_conv list_all_iff)
next
  assume "list_all isspace s"
  then have d: "dropWhile isspace s = []" by (simp add: dropWhile_eq_Nil_conv list_all_iff)
  show "strip s = []" unfolding strip_def d by simp
qed

lemma dot_not_space: "\<not> isspace CHR ''.''"
  by (simp add: isspace_def whitespace_def)

lemma buffer_has_dot: "us \<noteq> [] \<Longrightarrow> CHR ''.'' \<in> set (buffer_of us)"
  by (cases us) (simp_all add: buffer_of_def)

lemma strip_buffer_not_Nil: "us \<noteq> [] \<Longrightarrow> strip (buffer_of us) \<noteq> []"
  using buffer_has_dot [of us] dot_not_space
  by (auto simp: strip_Nil_iff list_all_iff)

text \<open>
  While the buffer is empty the loop emits every unit that is over the budget on its own;
  the first unit that is not starts the buffer, and from then on the buffer is never empty
  and every split holds a full stop.
\<close>

lemma split_loop_leading:
  "split_loop cp ss (splits, [])
   = (case dropWhile (over_budget cp) ss of
        [] \<Rightarrow> (splits @ map strip (takeWhile (over_budget cp) ss), [])
      | u # rest \<Rightarrow>
          split_loop cp rest (splits @ map strip (takeWhile (over_budget cp) ss), u @ ''. ''))"
proof (induction ss arbitrary: splits)
  case Nil
  show ?case by simp
next
  case (Cons s ss)
  show ?case
  proof (cases "over_budget cp s")
    case True
    then have st: "split_loop cp (s # ss) (splits, []) = split_loop cp ss (splits @ [strip s], [])"
      by (simp add: over_budget_def)
    have tw: "takeWhile (over_budget cp) (s # ss) = s # takeWhile (over_budget cp) ss"
      and dw: "dropWhile (over_budget cp) (s # ss) = dropWhile (over_budget cp) ss"
      using True by simp_all
    show ?thesis unfolding st Cons.IH [of "splits @ [strip s]"] tw dw
      by (cases "dropWhile (over_budget cp) ss") (simp_all del: dropWhile_eq_Nil_conv)
  next
    case False
    then show ?thesis by (simp add: over_budget_def)
  qed
qed

lemma split_loop_buffered:
  "us \<noteq> [] \<Longrightarrow>
   \<exists>extra us'. split_loop cp ss (splits, buffer_of us) = (splits @ extra, buffer_of us')
              \<and> us' \<noteq> [] \<and> list_all (\<lambda>x. x \<noteq> []) extra"
proof (induction ss arbitrary: splits us)
  case Nil
  then show ?case by (intro exI [of _ "[]"] exI [of _ us]) simp
next
  case (Cons s ss)
  have ne: "buffer_of us \<noteq> []" using Cons.prems by (simp add: buffer_of_Nil_iff)
  show ?case
  proof (cases "int (count_tokens cp (buffer_of us @ s)) > max_tokens cp")
    case True
    have "[s] \<noteq> []" by simp
    from Cons.IH [OF this, of "splits @ [strip (buffer_of us)]"] obtain extra us' where
      e: "split_loop cp ss (splits @ [strip (buffer_of us)], buffer_of [s])
          = ((splits @ [strip (buffer_of us)]) @ extra, buffer_of us')"
      "us' \<noteq> []" "list_all (\<lambda>x. x \<noteq> []) extra" by blast
    have "split_loop cp (s # ss) (splits, buffer_of us)
          = (splits @ (strip (buffer_of us) # extra), buffer_of us')"
      using True ne e(1) by (simp add: buffer_of_def)
    moreover have "list_all (\<lambda>x. x \<noteq> []) (strip (buffer_of us) # extra)"
      using e(3) strip_buffer_not_Nil [OF Cons.prems] by simp
    ultimately show ?thesis using e(2) by blast
  next
    case False
    have "us @ [s] \<noteq> []" by simp
    from Cons.IH [OF this, of splits] obtain extra us' where
      e: "split_loop cp ss (splits, buffer_of (us @ [s])) = (splits @ extra, buffer_of us')"
      "us' \<noteq> []" "list_all (\<lambda>x. x \<noteq> []) extra" by blast
    have "split_loop cp (s # ss) (splits, buffer_of us) = (splits @ extra, buffer_of us')"
      using False e(1) by (simp add: buffer_of_snoc)
    then show ?thesis using e(2,3) by blast
  qed
qed

lemma split_contents_nonempty_iff:
  "list_all (\<lambda>x. x \<noteq> []) (split_contents cp c)
   \<longleftrightarrow> list_all (\<lambda>u. \<not> list_all isspace u) (takeWhile (over_budget cp) (split_sentences c))"
proof -
  let ?ss = "split_sentences c"
  let ?pre = "takeWhile (over_budget cp) ?ss"
  have pre: "list_all (\<lambda>x. x \<noteq> []) (map strip ?pre) \<longleftrightarrow> list_all (\<lambda>u. \<not> list_all isspace u) ?pre"
    by (simp add: list_all_iff strip_Nil_iff)
  show ?thesis
  proof (cases "dropWhile (over_budget cp) ?ss")
    case Nil
    have "split_loop cp ?ss ([], []) = (map strip ?pre, [])"
      unfolding split_loop_leading Nil by simp
    then have "split_contents cp c = map strip ?pre" by (simp add: split_contents_def)
    then show ?thesis using pre by simp
  next
    case (Cons u rest)
    have l: "split_loop cp ?ss ([], []) = split_loop cp rest (map strip ?pre, buffer_of [u])"
      unfolding split_loop_leading Cons by (simp add: buffer_of_def)
    have "[u] \<noteq> []" by simp
    from split_loop_buffered [OF this, of cp rest "map strip ?pre"] obtain extra us' where
      e: "split_loop cp rest (map strip ?pre, buffer_of [u]) = (map strip ?pre @ extra, buffer_of us')"
      "us' \<noteq> []" "list_all (\<lambda>x. x \<noteq> []) extra" by blast
    have "buffer_of us' \<noteq> []" using e(2) by (simp add: buffer_of_Nil_iff)
    then have "split_contents cp c = map strip ?pre @ extra @ [strip (buffer_of us')]"
      using l e(1) by (simp add: split_contents_def)
    then show ?thesis using pre e(3) strip_buffer_not_Nil [OF e(2)] by simp
  qed
qed

lemma split_contents_Nil: "over_budget cp [] \<Longrightarrow> split_contents cp [] = [[]]"
  by (simp add: split_contents_def over_budget_def strip_def)

text \<open>
  C8, as the code has it. When the stripped content is within the budget, the chunk
  \<open>process_chunk\<close> returns has non-empty content exactly when the segment's content has a
  character that is not whitespace. When it is over the budget, every chunk returned has
  non-empty content exactly when none of the leading sentence units that are each over
  the budget on their own (the units emitted alone before the buffer is first filled) is
  whitespace only. A segment whose content is empty or whitespace only always yields
  exactly one chunk, and its content is empty.
\<close>

theorem content_nonempty_exactly_when:
  "(list_all (\<lambda>c. content c \<noteq> []) (fst (process_chunk cp uuid4 n seg url))
      \<longleftrightarrow> (if over_budget cp (strip (seg_content seg))
           then list_all (\<lambda>u. \<not> list_all isspace u)
                  (takeWhile (over_budget cp) (split_sentences (strip (seg_content seg))))
           else \<not> list_all isspace (seg_content seg)))
   \<and> (list_all isspace (seg_content seg) \<longrightarrow>
        map content (fst (process_chunk cp uuid4 n seg url)) = [''''])"
proof (intro conjI impI)
  show "list_all (\<lambda>c. content c \<noteq> []) (fst (process_chunk cp uuid4 n seg url))
      \<longleftrightarrow> (if over_budget cp (strip (seg_content seg))
           then list_all (\<lambda>u. \<not> list_all isspace u)
                  (takeWhile (over_budget cp) (split_sentences (strip (seg_content seg))))
           else \<not> list_all isspace (seg_content seg))"
  proof (cases "over_budget cp (strip (seg_content seg))")
    case True
    have "list_all (\<lambda>c. content c \<noteq> []) (fst (process_chunk cp uuid4 n seg url))
          \<longleftrightarrow> list_all (\<lambda>x. x \<noteq> []) (map content (fst (process_chunk cp uuid4 n seg url)))"
      by (simp add: list_all_iff)
    also have "map content (fst (process_chunk cp uuid4 n seg url))
               = split_contents cp (strip (seg_content seg))"
      using True by (simp add: process_chunk_def over_budget_def contents_split_large_chunk)
    finally show ?thesis using True by (simp add: split_contents_nonempty_iff)
  next
    case False
    then show ?thesis by (simp add: process_chunk_def over_budget_def strip_Nil_iff)
  qed
next
  assume "list_all isspace (seg_content seg)"
  then have s: "strip (seg_content seg) = []" by (simp add: strip_Nil_iff)
  show "map content (fst (process_chunk cp uuid4 n seg url)) = ['''']"
  proof (cases "over_budget cp []")
    case True
    then show ?thesis
      by (simp add: process_chunk_def s over_budget_def contents_split_large_chunk
                    split_contents_Nil [OF True])
  next
    case False
    then show ?thesis by (simp add: process_chunk_def s over_budget_def)
  qed
qed

theorem content_nonempty_exactly_when_witness:
  "list_all isspace (seg_content blank_segment)
   \<and> map content (fst (process_chunk char_counter example_uuid4 0 blank_segment ''u'')) = ['''']
   \<and> over_budget small_processor (strip (seg_content padded_segment))
   \<and> list_all (\<lambda>u. \<not> list_all isspace u)
        (takeWhile (over_budget small_processor) (split_sentences (strip (seg_content padded_segment))))
   \<and> list_all (\<lambda>c. content c \<noteq> []) (fst (process_chunk small_processor example_uuid4 0 padded_segment ''u''))
   \<and> over_budget zero_budget (strip (seg_content blank_unit_segment))
   \<and> \<not> list_all (\<lambda>u. \<not> list_all isspace u)
          (takeWhile (over_budget zero_budget) (split_sentences (strip (seg_content blank_unit_segment))))
   \<and> \<not> list_all (\<lambda>c. content c \<noteq> []) (fst (process_chunk zero_budget example_uuid4 0 blank_unit_segment ''u''))
   \<and> over_budget unit_budget (strip (seg_content wide_blank_segment))
   \<and> list_all (\<lambda>u. \<not> list_all isspace u)
        (takeWhile (over_budget unit_budget) (split_sentences (strip (seg_content wide_blank_segment))))
   \<and> list_all (\<lambda>c. content c \<noteq> []) (fst (process_chunk unit_budget example_uuid4 0 wide_blank_segment ''u''))
   \<and> \<not> over_budget char_counter (strip (seg_content padded_segment))
   \<and> \<not> list_all isspace (seg_content padded_segment)
   \<and> list_all (\<lambda>c. content c \<noteq> []) (fst (process_chunk char_counter example_uuid4 0 padded_segment ''u''))"
proof -
  have a: "list_all isspace (seg_content blank_segment)"
    by (simp add: blank_segment_def isspace_def whitespace_def)
  have b: "map content (fst (process_chunk char_counter example_uuid4 0 blank_segment ''u'')) = ['''']"
    using a content_nonempty_exactly_when
            [where cp = char_counter and seg = blank_segment and ?uuid4.0 = example_uuid4 and n = 0 and url = "''u''"]
    by blast
  have c: "over_budget small_processor (strip (seg_content padded_segment))"
    by (simp add: padded_segment_def over_budget_def small_processor_def strip_def isspace_def
                  whitespace_def)
  have d: "list_all (\<lambda>u. \<not> list_all isspace u)
        (takeWhile (over_budget small_processor) (split_sentences (strip (seg_content padded_segment))))"
    by (simp add: padded_segment_def over_budget_def small_processor_def strip_def isspace_def
                  whitespace_def)
  have e: "list_all (\<lambda>c. content c \<noteq> []) (fst (process_chunk small_processor example_uuid4 0 padded_segment ''u''))"
    using c d content_nonempty_exactly_when
            [where cp = small_processor and seg = padded_segment and ?uuid4.0 = example_uuid4 and n = 0 and url = "''u''"]
    by simp
  have f: "over_budget zero_budget (strip (seg_content blank_unit_segment))"
    by (simp add: blank_unit_segment_def over_budget_def zero_budget_def strip_def isspace_def
                  whitespace_def)
  have g: "\<not> list_all (\<lambda>u. \<not> list_all isspace u)
          (takeWhile (over_budget zero_budget) (split_sentences (strip (seg_content blank_unit_segment))))"
    by (simp add: blank_unit_segment_def over_budget_def zero_budget_def strip_def isspace_def
                  whitespace_def)
  have h: "\<not> list_all (\<lambda>c. content c \<noteq> []) (fst (process_chunk zero_budget example_uuid4 0 blank_unit_segment ''u''))"
    using f g content_nonempty_exactly_when
            [where cp = zero_budget and seg = blank_unit_segment and ?uuid4.0 = example_uuid4 and n = 0 and url = "''u''"]
    by simp
  have i: "over_budget unit_budget (strip (seg_content wide_blank_segment))"
    by (simp add: wide_blank_segment_def over_budget_def unit_budget_def strip_def isspace_def
                  whitespace_def)
  have j: "list_all (\<lambda>u. \<not> list_all isspace u)
        (takeWhile (over_budget unit_budget) (split_sentences (strip (seg_content wide_blank_segment))))"
    by (simp add: wide_blank_segment_def over_budget_def unit_budget_def strip_def isspace_def
                  whitespace_def)
  have k: "list_all (\<lambda>c. content c \<noteq> []) (fst (process_chunk unit_budget example_uuid4 0 wide_blank_segment ''u''))"
    using i j content_nonempty_exactly_when
            [where cp = unit_budget and seg = wide_blank_segment and ?uuid4.0 = example_uuid4 and n = 0 and url = "''u''"]
    by simp
  have l: "\<not> over_budget char_counter (strip (seg_content padded_segment))"
    by (simp add: padded_segment_def over_budget_def char_counter_def strip_def isspace_def
                  whitespace_def)
  have m: "\<not> list_all isspace (seg_content padded_segment)"
    by (simp add: padded_segment_def isspace_def whitespace_def)
  have n: "list_all (\<lambda>c. content c \<noteq> []) (fst (process_chunk char_counter example_uuid4 0 padded_segment ''u''))"
    using l m content_nonempty_exactly_when
            [where cp = char_counter and seg = padded_segment and ?uuid4.0 = example_uuid4 and n = 0 and url = "''u''"]
    by simp
  show ?thesis using a b c d e f g h i j k l m n by blast
qed

text \<open>
  A unit of whitespace that is over the budget while the buffer is filled is flushed with
  it and leaves no empty split.
\<close>

lemma wide_blank_contents:
  "map content (fst (process_chunk unit_budget example_uuid4 0 wide_blank_segment ''u''))
   = [''a.'', ''.'', ''b.'']"
  by code_simp

section \<open>The completeness check and the size histogram\<close>

text \<open>
  C1. \<open>main\<close> hands \<open>validate_completeness\<close> the summarized chunks, which are the chunks
  after splitting. For a page with one level-1 heading whose segment is split into three
  chunks, the segmenter emits one segment and counts one heading, and the check compares
  the heading count with the three chunks, logs the mismatch and returns \<open>False\<close>.
\<close>

theorem completeness_check_counts_split_chunks:
  "length (chunks (run HeadingCollector_init [h1_block, para_block])) = 1
   \<and> h1_count (run HeadingCollector_init [h1_block, para_block])
       + h2_count (run HeadingCollector_init [h1_block, para_block]) = 1
   \<and> length (fst (process_chunks small_processor example_uuid4 0
                     (chunks (run HeadingCollector_init [h1_block, para_block])) ''u'')) = 3
   \<and> main_page small_processor example_uuid4 0 3000
        [Acquire 0, Acquire 1, Acquire 2, Resolve 1 (Response [''s1'']),
         Resolve 0 (Response [''s0'']), Resolve 2 (Response [''s2''])]
        ''# A\<newline>\<newline>ab. cd. e'' [h1_block, para_block] ''u''
       = Some (Inr (False, [LogError ''Mismatch in h1 and h2 headings. Original: 1, Processed: 3'']))"
  by code_simp

text \<open>
  C10. When the original content is the empty string and the heading counts add up to the
  number of chunks, \<open>validate_completeness\<close> does not return: the length comparison divides
  by the original length, which is zero, and \<open>ZeroDivisionError\<close> is raised.
\<close>

theorem empty_original_divides_by_zero:
  assumes "original_content = []"
    and "heading_counts ''h1'' = Some h1" and "heading_counts ''h2'' = Some h2"
    and "h1 + h2 = length processed_chunks"
  shows "validate_completeness original_content processed_chunks heading_counts = Inl ZeroDivisionError"
  using assms by (simp add: validate_completeness_def)

theorem empty_original_divides_by_zero_witness:
  "[''h1'' \<mapsto> 0, ''h2'' \<mapsto> 0] ''h1'' = Some (0::nat)
   \<and> [''h1'' \<mapsto> 0, ''h2'' \<mapsto> 0] ''h2'' = Some (0::nat)
   \<and> (0::nat) + 0 = length ([] :: chunk list)
   \<and> validate_completeness '''' [] [''h1'' \<mapsto> 0, ''h2'' \<mapsto> 0] = Inl ZeroDivisionError
   \<and> main_page char_counter example_uuid4 0 3000 [] '''' [] ''u'' = Some (Inl ZeroDivisionError)"
proof -
  have a: "[''h1'' \<mapsto> 0, ''h2'' \<mapsto> 0] ''h1'' = Some (0::nat)" by simp
  have b: "[''h1'' \<mapsto> 0, ''h2'' \<mapsto> 0] ''h2'' = Some (0::nat)" by simp
  have c: "(0::nat) + 0 = length ([] :: chunk list)" by simp
  have d: "validate_completeness '''' [] [''h1'' \<mapsto> 0, ''h2'' \<mapsto> 0] = Inl ZeroDivisionError"
    using empty_original_divides_by_zero [OF refl a b c] .
  have "main_page char_counter example_uuid4 0 3000 [] '''' [] ''u''
        = Some (validate_completeness '''' [] [''h1'' \<mapsto> 0, ''h2'' \<mapsto> 0])"
    by (simp add: main_page_def run_def walk_def HeadingCollector_init_def
                  generate_summaries_start_def summarized_chunks_def)
  then show ?thesis using a b c d by simp
qed

text \<open>
  C9. The ranges are labelled \<open>0-500\<close>, \<open>501-1000\<close>, ... and tested with
  \<open>start <= size < end\<close>: a chunk of exactly 500, 1000, 1500 or 2000 characters is counted
  in no bucket at all.
\<close>

theorem boundary_sizes_in_no_bucket:
  "size_distribution [500, 1000, 1500, 2000]
   = [(''0-500'', 0), (''501-1000'', 0), (''1001-1500'', 0), (''1501-2000'', 0), (''2001-inf'', 0)]"
  by (simp add: size_distribution_def size_ranges_def str_nat.simps numeral_eq_enat)


section \<open>The bounded summarizer\<close>

lemma sum_list_map_update:
  fixes f :: "'a \<Rightarrow> nat"
  shows "i < length xs \<Longrightarrow> sum_list (map f (xs[i := y])) + f (xs ! i) = sum_list (map f xs) + f y"
proof (induction xs arbitrary: i)
  case Nil
  then show ?case by simp
next
  case (Cons x xs)
  show ?case
  proof (cases i)
    case 0
    then show ?thesis by simp
  next
    case (Suc k)
    then have "k < length xs" using Cons.prems by simp
    from Cons.IH [OF this] show ?thesis using Suc by simp
  qed
qed

lemma slots_held_update:
  assumes "i < length (tasks s)"
  shows "slots_held (s\<lparr>tasks := (tasks s)[i := t]\<rparr>) + length (filter holds_slot (frames (tasks s ! i)))
         = slots_held s + length (filter holds_slot (frames t))"
  using sum_list_map_update [OF assms, of "\<lambda>t. length (filter holds_slot (frames t))" t]
  by (simp add: slots_held_def)

lemma slots_held_semaphore [simp]: "slots_held (s\<lparr>semaphore := k\<rparr>) = slots_held s"
  by (simp add: slots_held_def)

lemma slots_held_logged [simp]: "slots_held (s\<lparr>logged := l\<rparr>) = slots_held s"
  by (simp add: slots_held_def)

lemma return_chunk_slots:
  assumes "i < length (tasks s)"
  shows "semaphore (return_chunk i c msgs s) + slots_held (return_chunk i c msgs s)
         = semaphore s + slots_held s"
proof -
  have "return_chunk i c msgs s
        = (s\<lparr>tasks := (tasks s)[i := \<lparr>task_chunk = c, frames = []\<rparr>]\<rparr>)
            \<lparr>semaphore := semaphore s + length (filter holds_slot (frames (tasks s ! i))),
             logged := logged s @ msgs\<rparr>"
    by (simp add: return_chunk_def)
  then show ?thesis
    using slots_held_update [OF assms, of "\<lparr>task_chunk = c, frames = []\<rparr>"] by simp
qed

lemma step_slots:
  assumes "step ev s = Some s'"
  shows "semaphore s' + slots_held s' = semaphore s + slots_held s"
proof (cases ev)
  case (Acquire i)
  with assms obtain fs where i: "i < length (tasks s)" and f: "frames (tasks s ! i) = AtAcquire # fs"
    and pos: "semaphore s > 0"
    and s': "s' = s\<lparr>semaphore := semaphore s - 1,
                     tasks := (tasks s)[i := (tasks s ! i)\<lparr>frames := InCall # fs\<rparr>]\<rparr>"
    by (auto split: if_splits list.splits frame.splits)
  have "s' = (s\<lparr>tasks := (tasks s)[i := (tasks s ! i)\<lparr>frames := InCall # fs\<rparr>]\<rparr>)
               \<lparr>semaphore := semaphore s - 1\<rparr>"
    using s' by simp
  then show ?thesis
    using slots_held_update [OF i, of "(tasks s ! i)\<lparr>frames := InCall # fs\<rparr>"] f pos
    by (simp add: holds_slot_def)
next
  case (Resolve i r)
  with assms obtain fs where i: "i < length (tasks s)" and f: "frames (tasks s ! i) = InCall # fs"
    by (auto split: if_splits list.splits frame.splits)
  show ?thesis
  proof (cases r)
    case RateLimitError
    then have s': "s' = s\<lparr>tasks := (tasks s)[i := (tasks s ! i)\<lparr>frames := InSleep # fs\<rparr>]\<rparr>"
      using assms Resolve i f by simp
    show ?thesis
      using slots_held_update [OF i, of "(tasks s ! i)\<lparr>frames := InSleep # fs\<rparr>"] f
      by (simp add: s' holds_slot_def)
  next
    case (Response texts)
    then show ?thesis using assms Resolve i f
      by (cases texts) (auto simp: return_chunk_slots Let_def)
  next
    case (OtherError e)
    then show ?thesis using assms Resolve i f
      by (auto simp: return_chunk_slots Let_def)
  qed
next
  case (Wake i)
  with assms obtain fs where i: "i < length (tasks s)" and f: "frames (tasks s ! i) = InSleep # fs"
    and s': "s' = s\<lparr>tasks := (tasks s)[i := (tasks s ! i)\<lparr>frames := AtAcquire # InRetry # fs\<rparr>]\<rparr>"
    by (auto split: if_splits list.splits frame.splits)
  show ?thesis
    using slots_held_update [OF i, of "(tasks s ! i)\<lparr>frames := AtAcquire # InRetry # fs\<rparr>"] f
    by (simp add: s' holds_slot_def)
qed

lemma exec_slots:
  "exec evs s = Some s' \<Longrightarrow> semaphore s' + slots_held s' = semaphore s + slots_held s"
proof (induction evs arbitrary: s)
  case Nil
  then show ?case by simp
next
  case (Cons ev evs)
  then obtain s1 where a: "step ev s = Some s1" and b: "exec evs s1 = Some s'"
    by (auto split: option.splits)
  from Cons.IH [OF b] step_slots [OF a] show ?case by simp
qed

lemma calling_holds_slot:
  "(case frames t of InCall # fs \<Rightarrow> True | _ \<Rightarrow> False) \<Longrightarrow> 1 \<le> length (filter holds_slot (frames t))"
  by (auto simp: holds_slot_def split: list.splits frame.splits)

lemma in_flight_le_slots_held: "in_flight s \<le> slots_held s"
proof -
  have "length (filter (\<lambda>t. case frames t of InCall # fs \<Rightarrow> True | _ \<Rightarrow> False) ts)
        \<le> sum_list (map (\<lambda>t. length (filter holds_slot (frames t))) ts)" for ts :: "task list"
  proof (induction ts)
    case Nil
    show ?case by simp
  next
    case (Cons t ts)
    show ?case
    proof (cases "case frames t of InCall # fs \<Rightarrow> True | _ \<Rightarrow> False")
      case True
      from calling_holds_slot [OF True] Cons.IH show ?thesis using True by simp
    next
      case False
      with Cons.IH show ?thesis by simp
    qed
  qed
  then show ?thesis by (simp add: in_flight_def slots_held_def)
qed

text \<open>
  The free slots and the slots held always add up to the configured limit, and every call
  in flight holds a slot: in every state the tasks can reach, the calls in flight are at
  most \<open>max_concurrent_requests\<close>.
\<close>

lemma in_flight_bounded:
  assumes "generate_summaries_start max_concurrent_requests cs = Inr s0"
    and "exec evs s0 = Some s"
  shows "int (in_flight s) \<le> max_concurrent_requests"
proof -
  from assms(1) have nn: "0 \<le> max_concurrent_requests"
    and s0: "s0 = \<lparr>semaphore = nat max_concurrent_requests,
                    tasks = map (\<lambda>c. \<lparr>task_chunk = c, frames = [AtAcquire]\<rparr>) cs, logged = []\<rparr>"
    by (auto simp: generate_summaries_start_def split: if_splits)
  have "slots_held s0 = 0"
    by (simp add: s0 slots_held_def comp_def holds_slot_def)
  with exec_slots [OF assms(2)] have "semaphore s + slots_held s = nat max_concurrent_requests"
    by (simp add: s0)
  with in_flight_le_slots_held [of s] have "in_flight s \<le> nat max_concurrent_requests" by linarith
  with nn show ?thesis by linarith
qed

text \<open>
  C4. The handler of \<open>RateLimitError\<close> sleeps and retries inside the \<open>async with\<close> block, so
  the activation keeps its slot across the sleep and while the nested call waits for a slot
  of its own. With a limit of one and a single chunk whose first call is throttled, the
  slot is still held during the sleep; after it, the retry waits at the semaphore, no step
  is possible any more, the slot is never released and the gather never returns.
\<close>

theorem retry_holds_slot_across_backoff:
  "generate_summaries_start 1 [three_units] = Inr (single_task_state 1 [AtAcquire])
   \<and> exec [Acquire 0, Resolve 0 RateLimitError] (single_task_state 1 [AtAcquire])
       = Some (single_task_state 0 [InSleep])
   \<and> slots_held (single_task_state 0 [InSleep]) = 1
   \<and> step (Wake 0) (single_task_state 0 [InSleep]) = Some (single_task_state 0 [AtAcquire, InRetry])
   \<and> slots_held (single_task_state 0 [AtAcquire, InRetry]) = 1
   \<and> (\<forall>ev. step ev (single_task_state 0 [AtAcquire, InRetry]) = None)
   \<and> summarized_chunks (single_task_state 0 [AtAcquire, InRetry]) = None"
proof -
  have stuck: "step ev (single_task_state 0 [AtAcquire, InRetry]) = None" for ev
    by (cases ev) (auto simp: single_task_state_def)
  show ?thesis
    using stuck
    by (simp add: generate_summaries_start_def single_task_state_def slots_held_def holds_slot_def
                  summarized_chunks_def)
qed










end
